theory Spec2Isabelle
  imports Complex_Main
begin

section \<open>The bioreactor model of Model.py\<close>

text \<open>
  The class \<^verbatim>\<open>Model\<close> of \<^verbatim>\<open>Model.py\<close> is embedded over the real numbers: a Python or
  numpy float is a \<^typ>\<open>real\<close>, a numpy vector is a list of reals. Every method takes the
  state of the program and returns its result together with the state it leaves, or the
  exception it raises.

  Two things of the floating-point program have no counterpart in the reals and are fixed
  as follows. A division by zero stops the computation with \<open>ZeroDivisionError\<close> (Python
  floats raise it, numpy scalars answer \<^verbatim>\<open>inf\<close> or \<^verbatim>\<open>nan\<close> with a warning). The initial
  state \<^verbatim>\<open>X0\<close> is taken to be an array of floats.
\<close>

datatype error = ValueError | ZeroDivisionError | LinAlgError

type_synonym vec = "real list"
type_synonym matrix = "real list list"

subsection \<open>The numpy operations the model uses\<close>

definition dot :: "vec \<Rightarrow> vec \<Rightarrow> real" where
  "dot u v = sum_list (map2 (*) u v)"

text \<open>\<^verbatim>\<open>M @ v\<close> for a two-dimensional \<^verbatim>\<open>M\<close>: the rows must be as long as \<^verbatim>\<open>v\<close>.\<close>

definition matmul :: "matrix \<Rightarrow> vec \<Rightarrow> error + vec" where
  "matmul M v =
     (if list_all (\<lambda>row. length row = length v) M
      then Inr (map (\<lambda>row. dot row v) M) else Inl ValueError)"

definition del_at :: "nat \<Rightarrow> 'a list \<Rightarrow> 'a list" where
  "del_at j xs = take j xs @ drop (Suc j) xs"

text \<open>The determinant, expanded along the first row.\<close>

fun det :: "matrix \<Rightarrow> real" where
  "det [] = 1"
| "det (r # rs) =
     (\<Sum>j\<leftarrow>[0..<length r]. (- 1) ^ j * r ! j * det (map (del_at j) rs))"

definition cofactor :: "matrix \<Rightarrow> nat \<Rightarrow> nat \<Rightarrow> real" where
  "cofactor M i j = (- 1) ^ (i + j) * det (map (del_at j) (del_at i M))"

text \<open>
  \<^verbatim>\<open>numpy.linalg.inv\<close>, over the reals: the exact inverse (the transposed cofactors over
  the determinant), and \<open>LinAlgError\<close> for a matrix that is not square or is singular.
\<close>

definition linalg_inv :: "matrix \<Rightarrow> error + matrix" where
  "linalg_inv M =
     (let n = length M in
      if \<not> list_all (\<lambda>row. length row = n) M then Inl LinAlgError
      else if det M = 0 then Inl LinAlgError
      else Inr (map (\<lambda>i. map (\<lambda>j. cofactor M j i / det M) [0..<n]) [0..<n]))"

text \<open>
  \<^verbatim>\<open>numpy.linspace(a, b, n)\<close>: \<open>n\<close> points from \<open>a\<close> to \<open>b\<close>, both ends included, at
  equal distances \<open>(b - a) / (n - 1)\<close>.
\<close>

definition linspace :: "real \<Rightarrow> real \<Rightarrow> nat \<Rightarrow> vec" where
  "linspace a b n = map (\<lambda>i. a + real i * ((b - a) / real (n - 1))) [0..<n]"

text \<open>
  \<^verbatim>\<open>numpy.argmin\<close>: the first index of a least element; an empty array is a
  \<open>ValueError\<close>.
\<close>

fun argmin_from :: "real \<Rightarrow> real list \<Rightarrow> nat" where
  "argmin_from x [] = 0"
| "argmin_from x (y # ys) =
     (let j = argmin_from y ys in if x \<le> (y # ys) ! j then 0 else Suc j)"

fun argmin :: "real list \<Rightarrow> error + nat" where
  "argmin [] = Inl ValueError"
| "argmin (x # xs) = Inr (argmin_from x xs)"

subsection \<open>The state\<close>

text \<open>
  The attributes of a \<^verbatim>\<open>Model\<close> object, with the part of the program state they refer to.
  numpy arrays are mutable objects: \<open>heap\<close> is the store of arrays, an address is an index
  into it. \<open>X_ref\<close> is the address of the array \<^verbatim>\<open>self.X\<close>, and \<open>Xs\<close> (the attribute
  \<^verbatim>\<open>_Xs\<close>) is a list of addresses, as a Python list holds references. \<open>stdout\<close> holds the
  values printed after \<^verbatim>\<open>'ph CB:'\<close>.
\<close>

record model =
  X_ref :: nat
  inputs :: "real \<Rightarrow> real list"
  time :: real
  pH_calculations :: bool
  Xs :: "nat list"
  rate_matrix_inv :: matrix
  heap :: "vec list"
  stdout :: "real list"

definition X :: "model \<Rightarrow> vec" where
  "X m = heap m ! X_ref m"

text \<open>A new array is stored at the end of the heap; its address is returned.\<close>

definition alloc :: "vec \<Rightarrow> model \<Rightarrow> nat \<times> model" where
  "alloc v m = (length (heap m), m\<lparr>heap := heap m @ [v]\<rparr>)"

subsection \<open>Construction constants\<close>

definition alpha :: real where "alpha = 0.1"
definition PO :: real where "PO = 0.1"
definition gamma :: real where "gamma = 1.8"
definition theta :: real where "theta = 0.1"
definition beta :: real where "beta = 0.1"
definition delta :: real where "delta = 0.2"

definition rate_matrix :: matrix where
  "rate_matrix =
     [[1, 0, 0, 0, 0],
      [0, 0, 0, 1, 0],
      [0, 0, 0, 0, 1],
      [- 6, 4, 7 / 3, 2, - gamma],
      [0, 12, - 1, 0, beta]]"

subsection \<open>The kinetic terms of \<^verbatim>\<open>DEs\<close>\<close>

definition first_increase :: "real \<Rightarrow> real" where
  "first_increase Cy = (0.6 / 46 / 25 * 4) * Cy * 1.8"

definition second_increase :: real where
  "second_increase = 2 / 46 / 120 * 3.2"

definition decrease :: "real \<Rightarrow> real" where
  "decrease Cz = (0.6 / 46 / 40 * 3) * Cz / 3"

definition rZ :: "real \<Rightarrow> real" where
  "rZ Cz = (if Cz > 0 then decrease Cz + second_increase else 0)"

definition rY :: "real \<Rightarrow> real \<Rightarrow> real" where
  "rY Cy Cz = (if Cy > 0 then first_increase Cy + decrease Cz else 0)"

text \<open>The right-hand side \<^verbatim>\<open>RHS\<close> handed to the rate network.\<close>

definition RHS :: "real \<Rightarrow> real \<Rightarrow> real \<Rightarrow> vec" where
  "RHS Cg Cz Cy =
     (let rFAf = 0.015 * (Cg / (0.01 + Cg)) - 0.5 * rZ Cz;
          rEf = (second_increase + rY Cy Cz) * (Cg / (0.00001 + Cg));
          theta_calc = theta * (Cg / (0.001 + Cg))
      in [rFAf, rEf, 0.00008, theta_calc, 0])"

subsection \<open>\<^verbatim>\<open>Model.DEs\<close>\<close>

text \<open>
  The rates and the balance equations (the lines from \<^verbatim>\<open>rG\<close> to the \<^verbatim>\<open>return\<close>), for
  the clamped state \<open>Xc\<close>, the inputs \<open>u\<close> and the solution \<open>r\<close> of the rate network.
\<close>

definition balances :: "vec \<Rightarrow> vec \<Rightarrow> vec \<Rightarrow> vec" where
  "balances Xc u r =
     (let Ng = Xc ! 0; Nx = Xc ! 1; Nfa = Xc ! 2; Ne = Xc ! 3; Nco = Xc ! 4; No = Xc ! 5;
          Nn = Xc ! 6; Na = Xc ! 7; Nb = Xc ! 8; Nz = Xc ! 9; Ny = Xc ! 10; V = Xc ! 11;
          Vg = Xc ! 12; T = Xc ! 13;
          Fg_in = u ! 0; Cg_in = u ! 1; Fco_in = u ! 2; Cco_in = u ! 3; Fo_in = u ! 4;
          Co_in = u ! 5; Fg_out = u ! 6; Cn_in = u ! 7; Fn_in = u ! 8; Fb_in = u ! 9;
          Cb_in = u ! 10; Fm_in = u ! 11; Fout = u ! 12; Tamb = u ! 13; Q = u ! 14;
          Cg = Ng / V; Cx = Nx / V; Cfa = Nfa / V; Ce = Ne / V; Cn = Nn / V; Ca = Na / V;
          Cb = Nb / V; Cz = Nz / V; Cy = Ny / V;
          Cco = Nco / Vg; Co = No / Vg;
          rFAf = r ! 0; rTCA = r ! 1; rResp = r ! 2; rEf = r ! 3; rbio = r ! 4;
          rG = - rFAf - rTCA - rEf - rbio;
          rX = 6 * rbio;
          rFA = 2 * (rFAf + 0.5 * rZ Cz);
          rE = 2 * (rEf - rZ Cz) * (Cg / (0.00001 + Cg));
          rCO = - 2 * rFAf + 6 * rTCA + 2 * rEf + alpha * rbio;
          rO = - 0.5 * rResp;
          dNg = Fg_in * Cg_in - Fout * Cg + rG * Cx * V;
          dNx = rX * Cx * V;
          dNfa = - Fout * Cfa + rFA * Cx * V;
          dNe = - Fout * Ce + rE * Cx * V;
          dNco = Fco_in * Cco_in - Fg_out * Cco + rCO * Cx * V;
          dNo = Fo_in * Co_in - Fg_out * Co - rO * Cx * V;
          dNn = Fn_in * Cn_in - Fout * Cn - delta * rX * Cx * V;
          dNa = - Fout * Ca;
          dNb = Fb_in * Cb_in - Fout * Cb;
          dNz = - 190 * rZ Cz * Cx * V;
          dNy = - 95 * rY Cy Cz * Cx * V;
          dV = Fg_in + Fn_in + Fb_in + Fm_in - Fout;
          dVg = Fco_in + Fo_in - Fg_out;
          dT = 4.5 * Q - 0.25 * (T - Tamb)
      in [dNg, dNx, dNfa, dNe, dNco, dNo, dNn, dNa, dNb, dNz, dNy, dV, dVg, dT])"

text \<open>
  The method reads \<^verbatim>\<open>self.X\<close>, \<^verbatim>\<open>self.inputs\<close> and \<^verbatim>\<open>self.rate_matrix_inv\<close> and assigns
  nothing. Unpacking a sequence of the wrong length is a \<open>ValueError\<close>. The divisions by
  \<open>V\<close> and \<open>Vg\<close> are the ones that can meet a zero: the other denominators are a positive
  constant plus a concentration, which is not negative once \<open>V\<close> is positive.
\<close>

definition DEs :: "real \<Rightarrow> model \<Rightarrow> error + vec \<times> model" where
  "DEs t m =
     (let Xc = map (max 0) (X m) in
      if length Xc \<noteq> 14 then Inl ValueError
      else
      let u = inputs m t in
      if length u \<noteq> 15 then Inl ValueError
      else
      let Ng = Xc ! 0; Nz = Xc ! 9; Ny = Xc ! 10; V = Xc ! 11; Vg = Xc ! 12 in
      if V = 0 then Inl ZeroDivisionError
      else if Vg = 0 then Inl ZeroDivisionError
      else
      case matmul (rate_matrix_inv m) (RHS (Ng / V) (Nz / V) (Ny / V)) of
        Inl e \<Rightarrow> Inl e
      | Inr r \<Rightarrow>
          if length r \<noteq> 5 then Inl ValueError
          else Inr (balances Xc u r, m))"

subsection \<open>\<^verbatim>\<open>Model.calculate_pH\<close>\<close>

definition K_fa1 :: real where "K_fa1 = 10 powr (- 3.03)"
definition K_fa2 :: real where "K_fa2 = 10 powr 4.44"
definition K_a :: real where "K_a = 10 powr 8.08"
definition K_b :: real where "K_b = 10 powr 0.56"
definition K_w :: real where "K_w = 10 powr (- 14)"

text \<open>
  The local function \<^verbatim>\<open>charge_balance\<close>, with the concentrations it captures as
  arguments. Its denominators are sums of positive numbers.
\<close>

definition charge_balance :: "real \<Rightarrow> real \<Rightarrow> real \<Rightarrow> real \<Rightarrow> real" where
  "charge_balance C_fa C_a C_b pH_guess =
     (let Ch = 10 powr (- pH_guess);
          C_fa_minus = K_fa1 * C_fa / (K_fa1 + Ch);
          C_fa_minus2 = K_fa2 * C_fa_minus / (K_fa2 + Ch);
          C_cl_minus = K_a * C_a / (K_a + Ch);
          C_oh_minus = K_w / Ch;
          C_na_plus = K_b * C_b / (K_b + C_oh_minus)
      in Ch + C_na_plus - C_fa_minus - C_fa_minus2 - C_cl_minus - C_oh_minus)"

definition pHs :: vec where
  "pHs = linspace 0 14 100"

text \<open>\<^verbatim>\<open>CBs\<close>: the charge balance on the grid, for the state vector \<open>Xv\<close>.\<close>

definition CBs :: "vec \<Rightarrow> vec" where
  "CBs Xv =
     map (charge_balance (Xv ! 2 / Xv ! 11) (Xv ! 7 / Xv ! 11) (Xv ! 8 / Xv ! 11)) pHs"

definition calculate_pH :: "model \<Rightarrow> error + real \<times> model" where
  "calculate_pH m =
     (let Xv = X m in
      if length Xv \<noteq> 14 then Inl ValueError
      else if Xv ! 11 = 0 then Inl ZeroDivisionError
      else
      case argmin (map abs (CBs Xv)) of
        Inl e \<Rightarrow> Inl e
      | Inr index \<Rightarrow>
          let pH = pHs ! index in
          if \<bar>CBs Xv ! index\<bar> > 0.1
          then Inr (pH, m\<lparr>stdout := stdout m @ [CBs Xv ! index]\<rparr>)
          else Inr (pH, m))"

subsection \<open>\<^verbatim>\<open>Model.outputs\<close>, \<^verbatim>\<open>Model.__init__\<close>, \<^verbatim>\<open>Model.step\<close>, \<^verbatim>\<open>Model.get_Xs\<close>\<close>

text \<open>
  \<^verbatim>\<open>outputs\<close> returns an array, that is, an address: \<^verbatim>\<open>numpy.append\<close> builds a new array,
  the other branch returns the array \<^verbatim>\<open>self.X\<close> itself.
\<close>

definition outputs :: "model \<Rightarrow> error + nat \<times> model" where
  "outputs m =
     (if pH_calculations m
      then (case calculate_pH m of
              Inl e \<Rightarrow> Inl e
            | Inr (pH, m1) \<Rightarrow> Inr (alloc (X m1 @ [pH]) m1))
      else Inr (X_ref m, m))"

text \<open>
  The object after the first four assignments of \<^verbatim>\<open>__init__\<close>: \<^verbatim>\<open>numpy.array(X0)\<close> is a
  new array, the first of the heap; \<^verbatim>\<open>_Xs\<close> and \<^verbatim>\<open>rate_matrix_inv\<close> are not assigned yet.
  \<^verbatim>\<open>rate_matrix_inv\<close> is assigned last, after the first call of \<^verbatim>\<open>outputs\<close>.
\<close>

definition new_model :: "vec \<Rightarrow> (real \<Rightarrow> real list) \<Rightarrow> real \<Rightarrow> bool \<Rightarrow> model" where
  "new_model X0 inp t0 pH_calc =
     \<lparr>X_ref = 0, inputs = inp, time = t0, pH_calculations = pH_calc, Xs = [],
      rate_matrix_inv = [], heap = [X0], stdout = []\<rparr>"

definition init :: "vec \<Rightarrow> (real \<Rightarrow> real list) \<Rightarrow> real \<Rightarrow> bool \<Rightarrow> error + model" where
  "init X0 inp t0 pH_calc =
     (let m0 = new_model X0 inp t0 pH_calc in
      case outputs m0 of
        Inl e \<Rightarrow> Inl e
      | Inr (a, m1) \<Rightarrow>
          let m2 = m1\<lparr>Xs := [a]\<rparr> in
          (case linalg_inv rate_matrix of
             Inl e \<Rightarrow> Inl e
           | Inr Mi \<Rightarrow> Inr (m2\<lparr>rate_matrix_inv := Mi\<rparr>)))"

text \<open>
  \<^verbatim>\<open>self.X += numpy.array(dX)*dt\<close> adds in place: the array at \<open>X_ref\<close> is overwritten.
\<close>

definition step :: "real \<Rightarrow> model \<Rightarrow> error + model" where
  "step dt m =
     (let m1 = m\<lparr>time := time m + dt\<rparr> in
      case DEs (time m1) m1 of
        Inl e \<Rightarrow> Inl e
      | Inr (dX, m2) \<Rightarrow>
          if length dX \<noteq> length (X m2) then Inl ValueError
          else
          let m3 = m2\<lparr>heap := list_update (heap m2) (X_ref m2)
                                   (map2 (+) (X m2) (map (\<lambda>d. d * dt) dX))\<rparr> in
          (case outputs m3 of
             Inl e \<Rightarrow> Inl e
           | Inr (a, m4) \<Rightarrow> Inr (m4\<lparr>Xs := Xs m4 @ [a]\<rparr>)))"

text \<open>\<^verbatim>\<open>numpy.array(self._Xs)\<close>: the table of the arrays the history refers to.\<close>

definition get_Xs :: "model \<Rightarrow> vec list" where
  "get_Xs m = map (\<lambda>a. heap m ! a) (Xs m)"

text \<open>Calling \<^verbatim>\<open>step\<close> once for each element of a list of time steps.\<close>

fun steps :: "real list \<Rightarrow> model \<Rightarrow> error + model" where
  "steps [] m = Inr m"
| "steps (dt # dts) m =
     (case step dt m of Inl e \<Rightarrow> Inl e | Inr m' \<Rightarrow> steps dts m')"

subsection \<open>Input functions and initial states of concrete runs\<close>

text \<open>An input function with every flow, every feed and the heat input zero.\<close>

definition no_flow :: "real \<Rightarrow> real list" where
  "no_flow t = [0, 0, 0, 0, 0, 0, 0, 0, 0, 0, 0, 0, 0, 0, 0]"

text \<open>The liquid inflow rate grows with time.\<close>

definition ramp_inflow :: "real \<Rightarrow> real list" where
  "ramp_inflow t = [t, 0, 0, 0, 0, 0, 0, 0, 0, 0, 0, 0, 0, 0, 0]"

text \<open>Liquid leaves at rate 2 and the makeup flow replaces it.\<close>

definition drain :: "real \<Rightarrow> real list" where
  "drain t = [0, 0, 0, 0, 0, 0, 0, 0, 0, 0, 0, 2, 2, 0, 0]"

text \<open>
  Unit volumes and nothing else; the same at temperature \<open>- 10\<close>; with acids and base; with
  the strong acid only; at temperature 8.
\<close>

definition tank :: vec where
  "tank = [0, 0, 0, 0, 0, 0, 0, 0, 0, 0, 0, 1, 1, 0]"

definition cold_tank :: vec where
  "cold_tank = [0, 0, 0, 0, 0, 0, 0, 0, 0, 0, 0, 1, 1, - 10]"

definition acid_tank :: vec where
  "acid_tank = [0, 0, 1, 0, 0, 0, 0, 1, 1, 0, 0, 1, 1, 0]"

definition brine_tank :: vec where
  "brine_tank = [0, 0, 0, 0, 0, 0, 0, 1, 0, 0, 0, 1, 1, 0]"

definition warm_tank :: vec where
  "warm_tank = [0, 0, 0, 0, 0, 0, 0, 0, 0, 0, 0, 1, 1, 8]"

text \<open>
  The object that \<^verbatim>\<open>__init__\<close> returns when \<^verbatim>\<open>pH_calculations\<close> is \<^verbatim>\<open>False\<close> (lemma
  \<open>init_plain\<close> below): the history holds the address of \<^verbatim>\<open>self.X\<close>.
\<close>

definition plain_model :: "vec \<Rightarrow> (real \<Rightarrow> real list) \<Rightarrow> real \<Rightarrow> model" where
  "plain_model X0 inp t0 =
     \<lparr>X_ref = 0, inputs = inp, time = t0, pH_calculations = False, Xs = [0],
      rate_matrix_inv =
        [[1, 0, 0, 0, 0],
         [3 / 16, - (1 / 16), 47 / 960, 1 / 32, 7 / 96],
         [9 / 4, - (3 / 4), 11 / 16, 3 / 8, - (1 / 8)],
         [0, 1, 0, 0, 0],
         [0, 0, 1, 0, 0]],
      heap = [X0], stdout = []\<rparr>"

text \<open>The input vectors with no flow and no heat input.\<close>

definition zero_flow :: "vec \<Rightarrow> bool" where
  "zero_flow u \<longleftrightarrow>
     length u = 15 \<and> u ! 0 = 0 \<and> u ! 2 = 0 \<and> u ! 4 = 0 \<and> u ! 6 = 0 \<and> u ! 8 = 0 \<and>
     u ! 9 = 0 \<and> u ! 11 = 0 \<and> u ! 12 = 0 \<and> u ! 14 = 0"

section \<open>Properties\<close>

subsection \<open>The rate matrix and its inverse\<close>

lemma det_rate_matrix: "det rate_matrix = - 32"
  by code_simp

lemma linalg_inv_rate_matrix:
  "linalg_inv rate_matrix =
     Inr [[1, 0, 0, 0, 0],
          [3 / 16, - (1 / 16), 47 / 960, 1 / 32, 7 / 96],
          [9 / 4, - (3 / 4), 11 / 16, 3 / 8, - (1 / 8)],
          [0, 1, 0, 0, 0],
          [0, 0, 1, 0, 0]]"
  unfolding linalg_inv_def Let_def det_rate_matrix
  by code_simp

lemma length_5_cases:
  "length (v :: 'a list) = 5 \<Longrightarrow> \<exists>a b c d e. v = [a, b, c, d, e]"
  by (auto simp: length_Suc_conv eval_nat_numeral)

subsection \<open>What the methods read and write\<close>

lemma length_balances: "length (balances Xc u r) = 14"
  by (simp add: balances_def Let_def)

lemma balances_volumes:
  "balances Xc u r ! 11 = u ! 0 + u ! 8 + u ! 9 + u ! 11 - u ! 12"
  "balances Xc u r ! 12 = u ! 2 + u ! 4 - u ! 6"
  "balances Xc u r ! 13 = 4.5 * u ! 14 - 0.25 * (Xc ! 13 - u ! 13)"
  by (simp_all add: balances_def Let_def)

lemma DEs_Inr:
  assumes "DEs t m = Inr (dX, m')"
  shows "m' = m" "length dX = 14" "length (X m) = 14" "length (inputs m t) = 15"
    "X m ! 11 > 0" "X m ! 12 > 0"
    "\<exists>r. dX = balances (map (max 0) (X m)) (inputs m t) r"
  using assms unfolding DEs_def Let_def
  by (auto split: if_splits sum.splits simp: max_def length_balances)

lemma length_RHS: "length (RHS Cg Cz Cy) = 5"
  by (simp add: RHS_def Let_def)

lemma matmul_inverse_length:
  assumes "linalg_inv rate_matrix = Inr Mi" "length v = 5"
  shows "\<exists>r. matmul Mi v = Inr r \<and> length r = 5"
proof -
  obtain a b c d e where v: "v = [a, b, c, d, e]"
    using length_5_cases [OF assms(2)] by blast
  from assms(1) show ?thesis
    unfolding linalg_inv_rate_matrix v by (auto simp: matmul_def)
qed

lemma DEs_returns:
  assumes "length (X m) = 14" "length (inputs m t) = 15" "X m ! 11 > 0" "X m ! 12 > 0"
    "linalg_inv rate_matrix = Inr (rate_matrix_inv m)"
  shows "\<exists>dX. DEs t m = Inr (dX, m)"
proof -
  let ?Xc = "map (max 0) (X m)"
  obtain r where r: "matmul (rate_matrix_inv m)
      (RHS (?Xc ! 0 / ?Xc ! 11) (?Xc ! 9 / ?Xc ! 11) (?Xc ! 10 / ?Xc ! 11)) = Inr r"
      "length r = 5"
    using matmul_inverse_length [OF assms(5) length_RHS] by blast
  from assms(1-4) r show ?thesis
    unfolding DEs_def Let_def by simp
qed

lemma DEs_reads:
  assumes "X m1 = X m2" "inputs m1 = inputs m2" "rate_matrix_inv m1 = rate_matrix_inv m2"
  shows "map_sum id fst (DEs t m1) = map_sum id fst (DEs t m2)"
  using assms unfolding DEs_def Let_def
  by (simp split: sum.splits)

lemma calculate_pH_Inr:
  assumes "calculate_pH m = Inr (pH, m')"
  shows "\<exists>s. m' = m\<lparr>stdout := s\<rparr>" "length (X m) = 14" "X m ! 11 \<noteq> 0"
proof -
  have same: "\<exists>s. m = m\<lparr>stdout := s\<rparr>"
    by (rule exI [of _ "stdout m"]) simp
  from assms have "m' = m \<or> (\<exists>s. m' = m\<lparr>stdout := s\<rparr>)"
    unfolding calculate_pH_def Let_def
    by (auto split: if_splits sum.splits)
  with same show "\<exists>s. m' = m\<lparr>stdout := s\<rparr>"
    by blast
  from assms show "length (X m) = 14" "X m ! 11 \<noteq> 0"
    unfolding calculate_pH_def Let_def
    by (auto split: if_splits sum.splits)
qed

lemma outputs_plain: "\<not> pH_calculations m \<Longrightarrow> outputs m = Inr (X_ref m, m)"
  by (simp add: outputs_def)

lemma outputs_pH:
  assumes "pH_calculations m" "outputs m = Inr (a, m')"
  shows "\<exists>pH s. calculate_pH m = Inr (pH, m\<lparr>stdout := s\<rparr>) \<and> a = length (heap m) \<and>
           m' = m\<lparr>stdout := s, heap := heap m @ [X m @ [pH]]\<rparr>"
proof -
  obtain pH m1 where c: "calculate_pH m = Inr (pH, m1)"
    and a: "(a, m') = alloc (X m1 @ [pH]) m1"
    using assms unfolding outputs_def by (auto split: sum.splits)
  obtain s where m1: "m1 = m\<lparr>stdout := s\<rparr>"
    using calculate_pH_Inr(1) [OF c] by blast
  from a c show ?thesis
    unfolding m1 by (auto simp: alloc_def X_def)
qed

lemma step_Inr:
  assumes "X_ref m < length (heap m)" "step dt m = Inr m'"
  shows "\<exists>dX. DEs (time m + dt) m = Inr (dX, m) \<and>
           X m' = map2 (+) (X m) (map (\<lambda>d. d * dt) dX)"
    "time m' = time m + dt" "X_ref m' = X_ref m" "inputs m' = inputs m"
    "rate_matrix_inv m' = rate_matrix_inv m" "pH_calculations m' = pH_calculations m"
    "X_ref m' < length (heap m')"
proof -
  let ?m1 = "m\<lparr>time := time m + dt\<rparr>"
  obtain dX m2 where d: "DEs (time m + dt) ?m1 = Inr (dX, m2)"
    using assms(2) unfolding step_def Let_def by (auto split: sum.splits)
  have m2: "m2 = ?m1" using DEs_Inr(1) [OF d] .
  have "map_sum id fst (DEs (time m + dt) m) = map_sum id fst (DEs (time m + dt) ?m1)"
    by (rule DEs_reads) (simp_all add: X_def)
  with d obtain mx where "DEs (time m + dt) m = Inr (dX, mx)"
    by (cases "DEs (time m + dt) m") auto
  then have d0: "DEs (time m + dt) m = Inr (dX, m)"
    using DEs_Inr(1) by blast
  let ?new = "map2 (+) (X m) (map (\<lambda>d. d * dt) dX)"
  let ?m3 = "?m1\<lparr>heap := list_update (heap m) (X_ref m) ?new\<rparr>"
  have len: "length dX = length (X m)"
    using DEs_Inr(2,3) [OF d0] by simp
  obtain a m4 where o: "outputs ?m3 = Inr (a, m4)" and m': "m' = m4\<lparr>Xs := Xs m4 @ [a]\<rparr>"
    using assms(2) d len unfolding step_def Let_def m2
    by (auto split: sum.splits if_splits simp: X_def)
  have X3: "X ?m3 = ?new" using assms(1) by (simp add: X_def)
  have "X m' = ?new \<and> time m' = time m + dt \<and> X_ref m' = X_ref m \<and> inputs m' = inputs m \<and>
    rate_matrix_inv m' = rate_matrix_inv m \<and> pH_calculations m' = pH_calculations m \<and>
    X_ref m' < length (heap m')"
  proof (cases "pH_calculations m")
    case False
    then have "m4 = ?m3" using o by (auto simp: outputs_plain)
    then show ?thesis using X3 assms(1) unfolding m' by (simp add: X_def)
  next
    case True
    then have "pH_calculations ?m3" by simp
    from outputs_pH [OF this o] obtain pH s where
      "m4 = ?m3\<lparr>stdout := s, heap := heap ?m3 @ [X ?m3 @ [pH]]\<rparr>" by blast
    then show ?thesis using X3 assms(1) unfolding m' by (simp add: X_def nth_append)
  qed
  with d0 show "\<exists>dX. DEs (time m + dt) m = Inr (dX, m) \<and>
           X m' = map2 (+) (X m) (map (\<lambda>d. d * dt) dX)"
    "time m' = time m + dt" "X_ref m' = X_ref m" "inputs m' = inputs m"
    "rate_matrix_inv m' = rate_matrix_inv m" "pH_calculations m' = pH_calculations m"
    "X_ref m' < length (heap m')"
    by blast+
qed

subsection \<open>The grid search of \<^verbatim>\<open>calculate_pH\<close>\<close>

lemma argmin_from_less: "argmin_from x xs < Suc (length xs)"
  by (induction xs arbitrary: x) (auto simp: Let_def)

lemma argmin_from_least:
  "j < Suc (length xs) \<Longrightarrow> (x # xs) ! argmin_from x xs \<le> (x # xs) ! j"
proof (induction xs arbitrary: x j)
  case Nil
  then show ?case by simp
next
  case (Cons y ys)
  let ?k = "argmin_from y ys"
  show ?case
  proof (cases j)
    case 0
    then show ?thesis by (simp add: Let_def)
  next
    case (Suc j')
    with Cons.prems have "j' < Suc (length ys)" by simp
    from Cons.IH [OF this, of y] have "(y # ys) ! ?k \<le> (y # ys) ! j'" .
    with Suc show ?thesis by (auto simp: Let_def)
  qed
qed

lemma argmin_nonempty:
  assumes "xs \<noteq> []"
  shows "\<exists>i. argmin xs = Inr i \<and> i < length xs \<and> (\<forall>j<length xs. xs ! i \<le> xs ! j)"
proof -
  obtain y ys where xs: "xs = y # ys" using assms by (cases xs) auto
  show ?thesis
    unfolding xs using argmin_from_less [of y ys] argmin_from_least [of _ ys y]
    by auto
qed

lemma length_pHs: "length pHs = 100"
  by (simp add: pHs_def linspace_def)

lemma nth_pHs: "i < 100 \<Longrightarrow> pHs ! i = 14 * real i / 99"
  by (simp add: pHs_def linspace_def)

lemma length_CBs: "length (CBs Xv) = 100"
  by (simp add: CBs_def length_pHs)

lemma nth_CBs:
  "i < 100 \<Longrightarrow>
   CBs Xv ! i = charge_balance (Xv ! 2 / Xv ! 11) (Xv ! 7 / Xv ! 11) (Xv ! 8 / Xv ! 11)
                  (pHs ! i)"
  by (simp add: CBs_def length_pHs)

lemma calculate_pH_returns:
  assumes "length (X m) = 14" "X m ! 11 \<noteq> 0"
  shows "\<exists>i<100. argmin (map abs (CBs (X m))) = Inr i \<and>
           (\<forall>j<100. \<bar>CBs (X m) ! i\<bar> \<le> \<bar>CBs (X m) ! j\<bar>) \<and>
           calculate_pH m =
             Inr (pHs ! i,
                  if \<bar>CBs (X m) ! i\<bar> > 0.1
                  then m\<lparr>stdout := stdout m @ [CBs (X m) ! i]\<rparr> else m)"
proof -
  let ?xs = "map abs (CBs (X m))"
  have "?xs \<noteq> []" using length_CBs [of "X m"] by auto
  from argmin_nonempty [OF this] obtain i where
    i: "argmin ?xs = Inr i" "i < length ?xs" "\<forall>j<length ?xs. ?xs ! i \<le> ?xs ! j"
    by blast
  have "i < 100" using i(2) by (simp add: length_CBs)
  moreover have "\<forall>j<100. \<bar>CBs (X m) ! i\<bar> \<le> \<bar>CBs (X m) ! j\<bar>"
    using i(2,3) by (simp add: length_CBs)
  moreover have "calculate_pH m =
             Inr (pHs ! i,
                  if \<bar>CBs (X m) ! i\<bar> > 0.1
                  then m\<lparr>stdout := stdout m @ [CBs (X m) ! i]\<rparr> else m)"
    using assms i(1) unfolding calculate_pH_def Let_def by simp
  ultimately show ?thesis using i(1) by blast
qed

text \<open>
  The denominators that the model divides by without a check are positive: in \<^verbatim>\<open>DEs\<close> a
  positive constant plus a quotient of clamped values, in \<^verbatim>\<open>charge_balance\<close> sums of
  powers of 10.
\<close>

lemma clamped_ratio_nonneg: "0 \<le> max 0 (a :: real) / max 0 b"
  by simp

lemma charge_balance_denominators:
  "K_fa1 + 10 powr (- p) > 0" "K_fa2 + 10 powr (- p) > 0" "K_a + 10 powr (- p) > 0"
  "(10 :: real) powr (- p) > 0" "K_b + K_w / 10 powr (- p) > 0"
  by (simp_all add: K_fa1_def K_fa2_def K_a_def K_b_def K_w_def add_pos_pos)

lemma calculate_pH_reads:
  "X m1 = X m2 \<Longrightarrow> map_sum id fst (calculate_pH m1) = map_sum id fst (calculate_pH m2)"
  unfolding calculate_pH_def Let_def by (simp split: sum.splits)

subsection \<open>One step\<close>

lemma DEs_reads_clamped:
  assumes "map (max 0) (X m1) = map (max 0) (X m2)" "inputs m1 = inputs m2"
    "rate_matrix_inv m1 = rate_matrix_inv m2"
  shows "map_sum id fst (DEs t m1) = map_sum id fst (DEs t m2)"
  unfolding DEs_def Let_def assms
  by (simp split: sum.splits)

lemma DEs_time_update:
  assumes "DEs t m = Inr (dX, m0)"
  shows "DEs t (m\<lparr>time := s\<rparr>) = Inr (dX, m\<lparr>time := s\<rparr>)"
proof -
  have "map_sum id fst (DEs t (m\<lparr>time := s\<rparr>)) = map_sum id fst (DEs t m)"
    by (rule DEs_reads) (simp_all add: X_def)
  with assms obtain mx where "DEs t (m\<lparr>time := s\<rparr>) = Inr (dX, mx)"
    by (cases "DEs t (m\<lparr>time := s\<rparr>)") auto
  then show ?thesis using DEs_Inr(1) by blast
qed

lemma step_returns:
  assumes "X_ref m < length (heap m)" "DEs (time m + dt) m = Inr (dX, m0)"
    "pH_calculations m \<Longrightarrow> X m ! 11 + dX ! 11 * dt \<noteq> 0"
  shows "\<exists>m'. step dt m = Inr m'"
proof -
  let ?m1 = "m\<lparr>time := time m + dt\<rparr>"
  let ?new = "map2 (+) (X m) (map (\<lambda>d. d * dt) dX)"
  let ?m3 = "?m1\<lparr>heap := list_update (heap m) (X_ref m) ?new\<rparr>"
  note d = DEs_time_update [OF assms(2), of "time m + dt"]
  have len: "length dX = 14" "length (X m) = 14"
    using DEs_Inr(2,3) [OF assms(2)] by simp_all
  have X3: "X ?m3 = ?new" using assms(1) by (simp add: X_def)
  have "\<exists>a m4. outputs ?m3 = Inr (a, m4)"
  proof (cases "pH_calculations m")
    case False
    then show ?thesis by (simp add: outputs_plain)
  next
    case True
    have "length (X ?m3) = 14" unfolding X3 using len by simp
    moreover have "X ?m3 ! 11 \<noteq> 0"
      unfolding X3 using len assms(3) [OF True] by simp
    ultimately obtain pH m4 where "calculate_pH ?m3 = Inr (pH, m4)"
      using calculate_pH_returns [of ?m3] by blast
    then show ?thesis using True by (simp add: outputs_def)
  qed
  then obtain a m4 where "outputs ?m3 = Inr (a, m4)" by blast
  with d len show ?thesis
    unfolding step_def Let_def by (simp add: X_def)
qed

lemma step_nth:
  assumes "X_ref m < length (heap m)" "step dt m = Inr m'"
  shows "\<exists>dX. DEs (time m + dt) m = Inr (dX, m) \<and> length (X m') = 14 \<and>
           (\<forall>i<14. X m' ! i = X m ! i + dX ! i * dt)"
proof -
  from step_Inr(1) [OF assms] obtain dX where
    d: "DEs (time m + dt) m = Inr (dX, m)"
    and x: "X m' = map2 (+) (X m) (map (\<lambda>d. d * dt) dX)"
    by blast
  have "length dX = 14" "length (X m) = 14"
    using DEs_Inr(2,3) [OF d] by simp_all
  then have "length (X m') = 14 \<and> (\<forall>i<14. X m' ! i = X m ! i + dX ! i * dt)"
    unfolding x by simp
  with d show ?thesis by blast
qed

subsection \<open>Construction and concrete runs\<close>

lemma init_plain: "init X0 inp t0 False = Inr (plain_model X0 inp t0)"
  by (simp add: init_def new_model_def outputs_def linalg_inv_rate_matrix plain_model_def)

lemmas run_defs = DEs_def step_def outputs_def X_def plain_model_def matmul_def dot_def
  RHS_def balances_def Let_def rZ_def rY_def first_increase_def second_increase_def
  decrease_def alpha_def theta_def delta_def

lemma argmin_error: "argmin xs = Inl e \<Longrightarrow> e = ValueError"
  by (cases xs) auto

lemma calculate_pH_error: "calculate_pH m = Inl e \<Longrightarrow> e \<noteq> LinAlgError"
  unfolding calculate_pH_def Let_def
  by (auto split: if_splits sum.splits dest: argmin_error)

lemma outputs_error: "outputs m = Inl e \<Longrightarrow> e \<noteq> LinAlgError"
  unfolding outputs_def
  by (auto split: if_splits sum.splits prod.splits dest: calculate_pH_error)

lemma init_Inr:
  assumes "init X0 inp t0 pH_calc = Inr m"
  shows "X_ref m < length (heap m)" "X m = X0" "inputs m = inp" "time m = t0"
    "pH_calculations m = pH_calc" "linalg_inv rate_matrix = Inr (rate_matrix_inv m)"
    "length (Xs m) = 1"
    "list_all (\<lambda>a. a < length (heap m) \<and> (if pH_calc then a \<noteq> X_ref m else a = X_ref m)) (Xs m)"
proof -
  let ?m0 = "new_model X0 inp t0 pH_calc"
  obtain a m1 where o: "outputs ?m0 = Inr (a, m1)"
    using assms unfolding init_def Let_def by (auto split: sum.splits)
  have "m1 = ?m0 \<and> a = 0 \<and> \<not> pH_calc \<or>
        (\<exists>pH s. pH_calc \<and> a = 1 \<and> m1 = ?m0\<lparr>stdout := s, heap := [X0, X0 @ [pH]]\<rparr>)"
  proof (cases pH_calc)
    case False
    then show ?thesis using o by (auto simp: outputs_plain new_model_def)
  next
    case True
    then have "pH_calculations ?m0" by (simp add: new_model_def)
    from outputs_pH [OF this o] show ?thesis
      using True by (auto simp: new_model_def X_def)
  qed
  moreover have "m = m1\<lparr>Xs := [a],
      rate_matrix_inv := [[1, 0, 0, 0, 0],
          [3 / 16, - (1 / 16), 47 / 960, 1 / 32, 7 / 96],
          [9 / 4, - (3 / 4), 11 / 16, 3 / 8, - (1 / 8)],
          [0, 1, 0, 0, 0],
          [0, 0, 1, 0, 0]]\<rparr>"
    using assms o unfolding init_def Let_def linalg_inv_rate_matrix by simp
  ultimately show "X_ref m < length (heap m)" "X m = X0" "inputs m = inp" "time m = t0"
    "pH_calculations m = pH_calc" "linalg_inv rate_matrix = Inr (rate_matrix_inv m)"
    "length (Xs m) = 1"
    "list_all (\<lambda>a. a < length (heap m) \<and> (if pH_calc then a \<noteq> X_ref m else a = X_ref m)) (Xs m)"
    by (auto simp: new_model_def X_def linalg_inv_rate_matrix)
qed

subsection \<open>Steps without flow\<close>

lemma zero_flow_step:
  assumes "\<forall>t. zero_flow (inputs m t)" "X_ref m < length (heap m)" "step dt m = Inr m'"
  shows "X m' ! 11 = X m ! 11" "X m' ! 12 = X m ! 12" "length (X m') = 14"
proof -
  from step_nth [OF assms(2,3)] obtain dX where
    d: "DEs (time m + dt) m = Inr (dX, m)" and l: "length (X m') = 14"
    and x: "\<forall>i<14. X m' ! i = X m ! i + dX ! i * dt"
    by blast
  from DEs_Inr(7) [OF d] obtain r where
    r: "dX = balances (map (max 0) (X m)) (inputs m (time m + dt)) r" by blast
  from assms(1) have z: "zero_flow (inputs m (time m + dt))" by blast
  have "dX ! 11 = 0" "dX ! 12 = 0"
    using z unfolding r zero_flow_def by (simp_all add: balances_volumes)
  with x show "X m' ! 11 = X m ! 11" "X m' ! 12 = X m ! 12" by simp_all
  show "length (X m') = 14" using l .
qed

lemma zero_flow_steps:
  assumes "\<forall>t. zero_flow (inputs m t)" "X_ref m < length (heap m)" "steps dts m = Inr m'"
  shows "X m' ! 11 = X m ! 11 \<and> X m' ! 12 = X m ! 12"
  using assms
proof (induction dts arbitrary: m)
  case Nil
  then show ?case by simp
next
  case (Cons dt dts)
  from Cons.prems(3) obtain m1 where s: "step dt m = Inr m1" and r: "steps dts m1 = Inr m'"
    by (auto split: sum.splits)
  note f = step_Inr [OF Cons.prems(2) s]
  have "X m' ! 11 = X m1 ! 11 \<and> X m' ! 12 = X m1 ! 12"
    using Cons.IH [OF _ f(7) r] Cons.prems(1) f(4) by simp
  with zero_flow_step(1,2) [OF Cons.prems(1,2) s] show ?case by simp
qed

lemma zero_flow_steps_return:
  assumes "\<forall>t. zero_flow (inputs m t)" "X_ref m < length (heap m)" "length (X m) = 14"
    "X m ! 11 > 0" "X m ! 12 > 0" "linalg_inv rate_matrix = Inr (rate_matrix_inv m)"
  shows "\<exists>m'. steps dts m = Inr m'"
  using assms
proof (induction dts arbitrary: m)
  case Nil
  then show ?case by simp
next
  case (Cons dt dts)
  from Cons.prems(1) have z: "zero_flow (inputs m (time m + dt))" by blast
  then have "length (inputs m (time m + dt)) = 15" by (simp add: zero_flow_def)
  from DEs_returns [OF Cons.prems(3) this Cons.prems(4,5,6)] obtain dX where
    d: "DEs (time m + dt) m = Inr (dX, m)" by blast
  from DEs_Inr(7) [OF d] obtain r where
    r: "dX = balances (map (max 0) (X m)) (inputs m (time m + dt)) r" by blast
  have "dX ! 11 = 0"
    using z unfolding r zero_flow_def by (simp add: balances_volumes)
  with Cons.prems(4) have "X m ! 11 + dX ! 11 * dt \<noteq> 0" by simp
  from step_returns [OF Cons.prems(2) d this] obtain m1 where
    s: "step dt m = Inr m1" by blast
  note f = step_Inr [OF Cons.prems(2) s]
  note v = zero_flow_step [OF Cons.prems(1,2) s]
  have "\<exists>m'. steps dts m1 = Inr m'"
  proof (rule Cons.IH)
    show "\<forall>t. zero_flow (inputs m1 t)" using Cons.prems(1) f(4) by simp
    show "X_ref m1 < length (heap m1)" using f(7) .
    show "length (X m1) = 14" using v(3) .
    show "0 < X m1 ! 11" using v(1) Cons.prems(4) by simp
    show "0 < X m1 ! 12" using v(2) Cons.prems(5) by simp
    show "linalg_inv rate_matrix = Inr (rate_matrix_inv m1)" using f(5) Cons.prems(6) by simp
  qed
  with s show ?case by simp
qed

lemma zero_flow_temperature:
  assumes "zero_flow (inputs m t)" "DEs t m = Inr (dX, m')"
  shows "dX ! 13 = - 0.25 * (max 0 (X m ! 13) - inputs m t ! 13)"
proof -
  from DEs_Inr(7) [OF assms(2)] obtain r where
    r: "dX = balances (map (max 0) (X m)) (inputs m t) r" by blast
  have "length (X m) = 14" using DEs_Inr(3) [OF assms(2)] .
  then show ?thesis
    using assms(1) unfolding r zero_flow_def by (simp add: balances_volumes)
qed

subsection \<open>The history\<close>

lemma step_history:
  assumes "X_ref m < length (heap m)" "step dt m = Inr m'"
  shows "\<not> pH_calculations m \<Longrightarrow>
           Xs m' = Xs m @ [X_ref m] \<and> heap m' = list_update (heap m) (X_ref m) (X m')"
    "pH_calculations m \<Longrightarrow>
       \<exists>pH. map_sum id fst (calculate_pH m') = Inr pH \<and> Xs m' = Xs m @ [length (heap m)] \<and>
            heap m' = list_update (heap m) (X_ref m) (X m') @ [X m' @ [pH]]"
proof -
  let ?m1 = "m\<lparr>time := time m + dt\<rparr>"
  from step_Inr(1) [OF assms] obtain dX where
    d0: "DEs (time m + dt) m = Inr (dX, m)"
    and x: "X m' = map2 (+) (X m) (map (\<lambda>d. d * dt) dX)"
    by blast
  note d = DEs_time_update [OF d0, of "time m + dt"]
  let ?new = "map2 (+) (X m) (map (\<lambda>d. d * dt) dX)"
  let ?m3 = "?m1\<lparr>heap := list_update (heap m) (X_ref m) ?new\<rparr>"
  have len: "length dX = length (X m)"
    using DEs_Inr(2,3) [OF d0] by simp
  obtain a m4 where o: "outputs ?m3 = Inr (a, m4)" and m': "m' = m4\<lparr>Xs := Xs m4 @ [a]\<rparr>"
    using assms(2) d len unfolding step_def Let_def
    by (auto split: sum.splits if_splits simp: X_def)
  have X3: "X ?m3 = ?new" using assms(1) by (simp add: X_def)
  have "Xs m' = Xs m @ [X_ref m] \<and> heap m' = list_update (heap m) (X_ref m) ?new"
    if "\<not> pH_calculations m"
  proof -
    from that o have "a = X_ref m" "m4 = ?m3" by (auto simp: outputs_plain)
    then show ?thesis unfolding m' by simp
  qed
  then show "\<not> pH_calculations m \<Longrightarrow>
           Xs m' = Xs m @ [X_ref m] \<and> heap m' = list_update (heap m) (X_ref m) (X m')"
    unfolding x .
  have "\<exists>pH. map_sum id fst (calculate_pH m') = Inr pH \<and>
            Xs m' = Xs m @ [length (heap m)] \<and>
            heap m' = list_update (heap m) (X_ref m) ?new @ [?new @ [pH]]"
    if "pH_calculations m"
  proof -
    from that have "pH_calculations ?m3" by simp
    from outputs_pH [OF this o] obtain pH s where
      c: "calculate_pH ?m3 = Inr (pH, ?m3\<lparr>stdout := s\<rparr>)"
      and r: "a = length (heap ?m3)"
        "m4 = ?m3\<lparr>stdout := s, heap := heap ?m3 @ [X ?m3 @ [pH]]\<rparr>"
      by blast
    have "X m' = X ?m3" unfolding x X3 ..
    from calculate_pH_reads [OF this] c
    have "map_sum id fst (calculate_pH m') = Inr pH" by simp
    with r show ?thesis unfolding m' X3 by simp
  qed
  then show "pH_calculations m \<Longrightarrow>
       \<exists>pH. map_sum id fst (calculate_pH m') = Inr pH \<and> Xs m' = Xs m @ [length (heap m)] \<and>
            heap m' = list_update (heap m) (X_ref m) (X m') @ [X m' @ [pH]]"
    unfolding x .
qed

text \<open>Without pH calculations every row of the history is the array \<^verbatim>\<open>self.X\<close> itself.\<close>

lemma plain_history_aliases:
  assumes "\<not> pH_calculations m" "X_ref m < length (heap m)" "set (Xs m) \<subseteq> {X_ref m}"
    "steps dts m = Inr m'"
  shows "get_Xs m' = replicate (length (Xs m) + length dts) (X m')"
  using assms
proof (induction dts arbitrary: m)
  case Nil
  then have "m' = m" by simp
  moreover have "map (\<lambda>a. heap m ! a) (Xs m) = replicate (length (Xs m)) (heap m ! X_ref m)"
    using Nil.prems(3) by (induction "Xs m") (auto simp: map_replicate_const subset_iff intro!: replicate_eqI)
  ultimately show ?case by (simp add: get_Xs_def X_def)
next
  case (Cons dt dts)
  from Cons.prems(4) obtain m1 where s: "step dt m = Inr m1" and r: "steps dts m1 = Inr m'"
    by (auto split: sum.splits)
  note f = step_Inr [OF Cons.prems(2) s]
  from step_history(1) [OF Cons.prems(2) s Cons.prems(1)]
  have h: "Xs m1 = Xs m @ [X_ref m]" by blast
  have "get_Xs m' = replicate (length (Xs m1) + length dts) (X m')"
  proof (rule Cons.IH [OF _ _ _ r])
    show "\<not> pH_calculations m1" using f(6) Cons.prems(1) by simp
    show "X_ref m1 < length (heap m1)" using f(7) .
    show "set (Xs m1) \<subseteq> {X_ref m1}" using h f(3) Cons.prems(3) by auto
  qed
  then show ?case by (simp add: h)
qed

text \<open>With pH calculations each step adds a new array and leaves the older rows alone.\<close>

lemma pH_history_grows:
  assumes "pH_calculations m" "X_ref m < length (heap m)"
    "list_all (\<lambda>a. a < length (heap m) \<and> a \<noteq> X_ref m) (Xs m)" "step dt m = Inr m'"
  shows "\<exists>pH. map_sum id fst (calculate_pH m') = Inr pH \<and>
              get_Xs m' = get_Xs m @ [X m' @ [pH]]"
    "list_all (\<lambda>a. a < length (heap m') \<and> a \<noteq> X_ref m') (Xs m')"
proof -
  from step_history(2) [OF assms(2,4,1)] obtain pH where
    c: "map_sum id fst (calculate_pH m') = Inr pH"
    and h: "Xs m' = Xs m @ [length (heap m)]"
      "heap m' = list_update (heap m) (X_ref m) (X m') @ [X m' @ [pH]]"
    by blast
  note f = step_Inr [OF assms(2,4)]
  have old: "heap m' ! a = heap m ! a" if "a \<in> set (Xs m)" for a
    using that assms(3) unfolding h(2) by (auto simp: list_all_iff nth_append)
  have "get_Xs m' = get_Xs m @ [X m' @ [pH]]"
    unfolding get_Xs_def h(1) using old by (simp add: h(2) nth_append)
  with c show "\<exists>pH. map_sum id fst (calculate_pH m') = Inr pH \<and>
              get_Xs m' = get_Xs m @ [X m' @ [pH]]" by blast
  show "list_all (\<lambda>a. a < length (heap m') \<and> a \<noteq> X_ref m') (Xs m')"
    using assms(2,3) unfolding h f(3) by (auto simp: list_all_iff)
qed

text \<open>The table has one row for the construction and one for each step.\<close>

lemma steps_history_length:
  assumes "X_ref m < length (heap m)" "steps dts m = Inr m'"
  shows "length (get_Xs m') = length (get_Xs m) + length dts"
  using assms
proof (induction dts arbitrary: m)
  case Nil
  then show ?case by simp
next
  case (Cons dt dts)
  from Cons.prems(2) obtain m1 where s: "step dt m = Inr m1" and r: "steps dts m1 = Inr m'"
    by (auto split: sum.splits)
  have "length (Xs m1) = Suc (length (Xs m))"
    using step_history [OF Cons.prems(1) s] by (cases "pH_calculations m") auto
  moreover have "length (get_Xs m') = length (get_Xs m1) + length dts"
    using Cons.IH [OF step_Inr(7) [OF Cons.prems(1) s] r] .
  ultimately show ?case by (simp add: get_Xs_def)
qed

lemma pH_history_kept:
  assumes "pH_calculations m" "X_ref m < length (heap m)"
    "list_all (\<lambda>a. a < length (heap m) \<and> a \<noteq> X_ref m) (Xs m)" "steps dts m = Inr m'"
  shows "\<exists>rows. get_Xs m' = get_Xs m @ rows \<and> length rows = length dts"
  using assms
proof (induction dts arbitrary: m)
  case Nil
  then show ?case by simp
next
  case (Cons dt dts)
  from Cons.prems(4) obtain m1 where s: "step dt m = Inr m1" and r: "steps dts m1 = Inr m'"
    by (auto split: sum.splits)
  note f = step_Inr [OF Cons.prems(2) s]
  from pH_history_grows [OF Cons.prems(1,2,3) s] obtain row where
    g: "get_Xs m1 = get_Xs m @ [row]"
    and i: "list_all (\<lambda>a. a < length (heap m1) \<and> a \<noteq> X_ref m1) (Xs m1)"
    by blast
  have "pH_calculations m1" using f(6) Cons.prems(1) by simp
  from Cons.IH [OF this f(7) i r] obtain rows where
    "get_Xs m' = get_Xs m1 @ rows" "length rows = length dts" by blast
  then have "get_Xs m' = get_Xs m @ (row # rows) \<and> length (row # rows) = length (dt # dts)"
    using g by simp
  then show ?case by blast
qed

section \<open>The claims about \<^verbatim>\<open>calculate_pH\<close>\<close>

text \<open>
  Claim C4. For a state of 14 components with \<open>V > 0\<close> and \<open>Nfa\<close>, \<open>Na\<close>, \<open>Nb\<close> not negative,
  \<^verbatim>\<open>calculate_pH\<close> returns one of the 100 grid values \<open>14 i / 99\<close>, hence a value between 0
  and 14, and no grid value has a smaller absolute charge balance.
\<close>

theorem calculate_pH_on_grid:
  assumes "length (X m) = 14" "X m ! 11 > 0" "X m ! 2 \<ge> 0" "X m ! 7 \<ge> 0" "X m ! 8 \<ge> 0"
  shows "length pHs = 100 \<and> (\<forall>i<100. pHs ! i = 14 * real i / 99) \<and>
         (\<exists>pH m'. calculate_pH m = Inr (pH, m') \<and> pH \<in> set pHs \<and> 0 \<le> pH \<and> pH \<le> 14 \<and>
            (\<forall>p\<in>set pHs.
               \<bar>charge_balance (X m ! 2 / X m ! 11) (X m ! 7 / X m ! 11) (X m ! 8 / X m ! 11) pH\<bar>
               \<le> \<bar>charge_balance (X m ! 2 / X m ! 11) (X m ! 7 / X m ! 11) (X m ! 8 / X m ! 11) p\<bar>))"
proof -
  let ?cb = "charge_balance (X m ! 2 / X m ! 11) (X m ! 7 / X m ! 11) (X m ! 8 / X m ! 11)"
  from assms(2) have "X m ! 11 \<noteq> 0" by simp
  from calculate_pH_returns [OF assms(1) this] obtain i m' where
    i: "i < 100" "\<forall>j<100. \<bar>CBs (X m) ! i\<bar> \<le> \<bar>CBs (X m) ! j\<bar>"
      "calculate_pH m = Inr (pHs ! i, m')"
    by blast
  have mem: "pHs ! i \<in> set pHs" using i(1) by (simp add: length_pHs)
  have lo: "0 \<le> pHs ! i" using i(1) by (simp add: nth_pHs)
  have hi: "pHs ! i \<le> 14" using i(1) by (simp add: nth_pHs)
  have best: "\<bar>?cb (pHs ! i)\<bar> \<le> \<bar>?cb p\<bar>" if "p \<in> set pHs" for p
  proof -
    from that obtain j where j: "j < 100" "p = pHs ! j"
      by (auto simp: in_set_conv_nth length_pHs)
    from i(2) j(1) have "\<bar>CBs (X m) ! i\<bar> \<le> \<bar>CBs (X m) ! j\<bar>" by blast
    then show ?thesis using i(1) j by (simp add: nth_CBs)
  qed
  from i(3) mem lo hi best show ?thesis
    by (auto simp: length_pHs nth_pHs)
qed

theorem calculate_pH_on_grid_witness:
  "length (X (new_model acid_tank no_flow 0 True)) = 14 \<and>
   X (new_model acid_tank no_flow 0 True) ! 11 > 0 \<and>
   (\<exists>pH m'. calculate_pH (new_model acid_tank no_flow 0 True) = Inr (pH, m') \<and>
      pH \<in> set pHs \<and> 0 \<le> pH \<and> pH \<le> 14)"
  using calculate_pH_on_grid [of "new_model acid_tank no_flow 0 True"]
  by (simp add: new_model_def acid_tank_def X_def) blast

text \<open>
  Claim C8. For a state of 14 components with \<open>V \<noteq> 0\<close>, \<^verbatim>\<open>calculate_pH\<close> raises nothing: it
  returns the grid value of least absolute charge balance, and when that residual exceeds
  \<open>0.1\<close> the only further effect is that the residual is printed.
\<close>

theorem calculate_pH_never_raises:
  assumes "length (X m) = 14" "X m ! 11 \<noteq> 0"
  shows "\<exists>i<100. (\<forall>j<100. \<bar>CBs (X m) ! i\<bar> \<le> \<bar>CBs (X m) ! j\<bar>) \<and>
           calculate_pH m =
             Inr (pHs ! i,
                  if \<bar>CBs (X m) ! i\<bar> > 0.1
                  then m\<lparr>stdout := stdout m @ [CBs (X m) ! i]\<rparr> else m)"
  using calculate_pH_returns [OF assms] by blast

theorem calculate_pH_never_raises_witness:
  "length (X (new_model acid_tank no_flow 0 True)) = 14 \<and>
   X (new_model acid_tank no_flow 0 True) ! 11 \<noteq> 0 \<and>
   (\<exists>pH m'. calculate_pH (new_model acid_tank no_flow 0 True) = Inr (pH, m'))"
  using calculate_pH_never_raises [of "new_model acid_tank no_flow 0 True"]
  by (simp add: new_model_def acid_tank_def X_def) blast

text \<open>
  Claim C10. Two states of 14 components that agree on \<open>Nfa\<close>, \<open>Na\<close>, \<open>Nb\<close> and \<open>V\<close> (with
  \<open>V \<noteq> 0\<close>) get the same pH from \<^verbatim>\<open>calculate_pH\<close>, whatever the other components, the
  time, the input function and the rest of the objects are.
\<close>

theorem calculate_pH_noninterference:
  assumes "length (X m1) = 14" "length (X m2) = 14"
    "X m1 ! 2 = X m2 ! 2" "X m1 ! 7 = X m2 ! 7" "X m1 ! 8 = X m2 ! 8"
    "X m1 ! 11 = X m2 ! 11" "X m1 ! 11 \<noteq> 0"
  shows "\<exists>pH m1' m2'. calculate_pH m1 = Inr (pH, m1') \<and> calculate_pH m2 = Inr (pH, m2')"
proof -
  have cb: "CBs (X m1) = CBs (X m2)"
    using assms(3-6) by (simp add: CBs_def)
  from assms(6,7) have v2: "X m2 ! 11 \<noteq> 0" by simp
  from calculate_pH_returns [OF assms(1,7)] obtain i m1' where
    i: "argmin (map abs (CBs (X m1))) = Inr i" "calculate_pH m1 = Inr (pHs ! i, m1')"
    by blast
  from calculate_pH_returns [OF assms(2) v2] obtain k m2' where
    k: "argmin (map abs (CBs (X m2))) = Inr k" "calculate_pH m2 = Inr (pHs ! k, m2')"
    by blast
  from i(1) k(1) cb have "k = i" by simp
  with i(2) k(2) show ?thesis by blast
qed

theorem calculate_pH_noninterference_witness:
  "length (X (new_model acid_tank no_flow 0 True)) = 14 \<and>
   length (X (new_model [5, 6, 1, 7, 8, 9, 10, 1, 1, 11, 12, 1, 13, 14] ramp_inflow 3 False)) = 14 \<and>
   (\<exists>pH m1' m2'.
      calculate_pH (new_model acid_tank no_flow 0 True) = Inr (pH, m1') \<and>
      calculate_pH (new_model [5, 6, 1, 7, 8, 9, 10, 1, 1, 11, 12, 1, 13, 14] ramp_inflow 3 False)
        = Inr (pH, m2'))"
  using calculate_pH_noninterference [of "new_model acid_tank no_flow 0 True"
      "new_model [5, 6, 1, 7, 8, 9, 10, 1, 1, 11, 12, 1, 13, 14] ramp_inflow 3 False"]
  by (simp add: new_model_def acid_tank_def X_def)

section \<open>The claims about the rate network\<close>

text \<open>
  Claim C3. For every right-hand side \<open>b\<close> of 5 components, the inverse built at
  construction exists, its product \<open>r\<close> with \<open>b\<close> is defined, and the rate matrix times \<open>r\<close>
  is \<open>b\<close> again (over the reals).
\<close>

theorem rate_network_round_trip:
  assumes "length b = 5"
  shows "\<exists>Mi r. linalg_inv rate_matrix = Inr Mi \<and> matmul Mi b = Inr r \<and>
                 matmul rate_matrix r = Inr b"
proof -
  obtain b1 b2 b3 b4 b5 where b: "b = [b1, b2, b3, b4, b5]"
    using length_5_cases [OF assms] by blast
  show ?thesis
    unfolding linalg_inv_rate_matrix b
    by (simp add: matmul_def dot_def rate_matrix_def gamma_def beta_def algebra_simps)
qed

theorem rate_network_round_trip_witness:
  "length [1, 2, 3, 4, 5 :: real] = 5 \<and>
   (\<exists>Mi r. linalg_inv rate_matrix = Inr Mi \<and> matmul Mi [1, 2, 3, 4, 5] = Inr r \<and>
            matmul rate_matrix r = Inr [1, 2, 3, 4, 5])"
  using rate_network_round_trip [of "[1, 2, 3, 4, 5]"] by simp

text \<open>
  Claim C9. The rate matrix has determinant \<open>- 32\<close>, so it is not singular: its
  inversion returns a matrix, and no construction ends in \<open>LinAlgError\<close>.
\<close>

theorem rate_matrix_nonsingular:
  "det rate_matrix \<noteq> 0 \<and> (\<exists>Mi. linalg_inv rate_matrix = Inr Mi) \<and>
   init X0 inp t0 pH_calc \<noteq> Inl LinAlgError"
proof -
  have "init X0 inp t0 pH_calc \<noteq> Inl LinAlgError"
    unfolding init_def Let_def linalg_inv_rate_matrix
    by (auto split: sum.splits prod.splits dest: outputs_error)
  then show ?thesis
    by (simp add: det_rate_matrix linalg_inv_rate_matrix)
qed

theorem rate_matrix_nonsingular_witness:
  "det rate_matrix \<noteq> 0 \<and> init tank no_flow 0 True \<noteq> Inl LinAlgError"
  using rate_matrix_nonsingular [of tank no_flow 0 True] by simp

text \<open>
  Claim C6. In the right-hand side that \<^verbatim>\<open>DEs\<close> hands to the rate network, \<open>rZ\<close> and \<open>rY\<close> are
  both 0 when \<open>Cz = 0\<close> and \<open>Cy = 0\<close>; when \<open>Cz > 0\<close> and \<open>Cy = 0\<close>, \<open>rZ\<close> is not 0 and \<open>rY\<close>
  is 0.
\<close>

theorem kinetic_switching:
  "(Cz = 0 \<and> Cy = 0 \<longrightarrow> rZ Cz = 0 \<and> rY Cy Cz = 0) \<and>
   (Cz > 0 \<and> Cy = 0 \<longrightarrow> rZ Cz \<noteq> 0 \<and> rY Cy Cz = 0) \<and>
   RHS Cg Cz Cy =
     [0.015 * (Cg / (0.01 + Cg)) - 0.5 * rZ Cz,
      (second_increase + rY Cy Cz) * (Cg / (0.00001 + Cg)),
      0.00008, theta * (Cg / (0.001 + Cg)), 0]"
proof -
  have "decrease Cz + second_increase > 0" if "Cz > 0"
    using that by (simp add: decrease_def second_increase_def add_pos_pos)
  then show ?thesis by (auto simp: rZ_def rY_def RHS_def)
qed

theorem kinetic_switching_witness:
  "rZ 0 = 0 \<and> rY 0 0 = 0 \<and> rZ 1 \<noteq> 0 \<and> rY 0 1 = 0"
  using kinetic_switching [of 0 0 0] kinetic_switching [of 1 0 0] by simp

section \<open>The claims about \<^verbatim>\<open>step\<close> and \<^verbatim>\<open>DEs\<close>\<close>

text \<open>
  Claim C1, as the code has it. \<^verbatim>\<open>step(dt)\<close> adds \<open>dt\<close> to the time first and then calls
  \<^verbatim>\<open>DEs\<close> with the new time. So a step that returns leaves the time \<open>t + dt\<close> and the state
  \<open>X + dX * dt\<close> componentwise, where \<open>dX\<close> is what \<^verbatim>\<open>DEs\<close> returns for the state \<open>X\<close> before
  the step and the time \<open>t + dt\<close> after it. The step returns whenever that call of \<^verbatim>\<open>DEs\<close>
  returns and, with pH calculations on, the new volume is not 0.
\<close>

theorem step_euler_at_new_time:
  assumes "X_ref m < length (heap m)"
  shows "(\<forall>m'. step dt m = Inr m' \<longrightarrow>
            time m' = time m + dt \<and>
            (\<exists>dX. DEs (time m + dt) m = Inr (dX, m) \<and>
                  X m' = map2 (+) (X m) (map (\<lambda>d. d * dt) dX))) \<and>
         (\<forall>dX. DEs (time m + dt) m = Inr (dX, m) \<and>
               (pH_calculations m \<longrightarrow> X m ! 11 + dX ! 11 * dt \<noteq> 0) \<longrightarrow>
               (\<exists>m'. step dt m = Inr m'))"
  using step_Inr(1,2) [OF assms] step_returns [OF assms]
  by blast

theorem step_euler_at_new_time_witness:
  "X_ref (plain_model tank ramp_inflow 0) < length (heap (plain_model tank ramp_inflow 0)) \<and>
   step 1 (plain_model tank ramp_inflow 0) =
     Inr ((plain_model tank ramp_inflow 0)
            \<lparr>time := 1, Xs := [0, 0],
             heap := [[0, 0, 0, 0, 0, 0, 0, 0, 0, 0, 0, 2, 1, 0]]\<rparr>) \<and>
   DEs (0 + 1) (plain_model tank ramp_inflow 0) =
     Inr ([0, 0, 0, 0, 0, 0, 0, 0, 0, 0, 0, 1, 0, 0], plain_model tank ramp_inflow 0) \<and>
   [0, 0, 0, 0, 0, 0, 0, 0, 0, 0, 0, 2, 1, 0] =
     map2 (+) tank (map (\<lambda>d. d * 1) [0, 0, 0, 0, 0, 0, 0, 0, 0, 0, 0, 1, 0, 0])"
  using step_euler_at_new_time [of "plain_model tank ramp_inflow 0" 1]
  by (simp add: run_defs tank_def ramp_inflow_def)

text \<open>
  Claim C1 as stated, with the derivative at the time before the step, fails for an
  inflow that grows with time: from time 0 the step \<open>dt = 1\<close> takes the volume from 1 to 2,
  while the derivative at time 0 is zero in every component.
\<close>

theorem step_euler_counterexample:
  "init tank ramp_inflow 0 False = Inr (plain_model tank ramp_inflow 0) \<and>
   time (plain_model tank ramp_inflow 0) = 0 \<and>
   X (plain_model tank ramp_inflow 0) = tank \<and>
   DEs 0 (plain_model tank ramp_inflow 0) =
     Inr ([0, 0, 0, 0, 0, 0, 0, 0, 0, 0, 0, 0, 0, 0], plain_model tank ramp_inflow 0) \<and>
   step 1 (plain_model tank ramp_inflow 0) =
     Inr ((plain_model tank ramp_inflow 0)
            \<lparr>time := 1, Xs := [0, 0],
             heap := [[0, 0, 0, 0, 0, 0, 0, 0, 0, 0, 0, 2, 1, 0]]\<rparr>) \<and>
   X ((plain_model tank ramp_inflow 0)
        \<lparr>time := 1, Xs := [0, 0],
         heap := [[0, 0, 0, 0, 0, 0, 0, 0, 0, 0, 0, 2, 1, 0]]\<rparr>) \<noteq>
     map2 (+) tank (map (\<lambda>d. d * 1) [0, 0, 0, 0, 0, 0, 0, 0, 0, 0, 0, 0, 0, 0])"
  by (simp add: init_plain) (simp add: run_defs tank_def ramp_inflow_def)

text \<open>
  Claim C2 does not hold of the code when pH calculations are off. \<^verbatim>\<open>outputs\<close> then returns
  the array \<^verbatim>\<open>self.X\<close> itself, \<^verbatim>\<open>step\<close> updates that array in place, and so every row of
  the history is the current state: after one step from \<open>tank\<close> the table has two rows,
  both the new state, and row 0 is no longer the row recorded at construction. (With pH
  calculations on, \<open>pH_history_grows\<close> above shows the rows are kept.)
\<close>

theorem history_rows_alias:
  "init tank ramp_inflow 0 False = Inr (plain_model tank ramp_inflow 0) \<and>
   get_Xs (plain_model tank ramp_inflow 0) = [tank] \<and>
   step 1 (plain_model tank ramp_inflow 0) =
     Inr ((plain_model tank ramp_inflow 0)
            \<lparr>time := 1, Xs := [0, 0],
             heap := [[0, 0, 0, 0, 0, 0, 0, 0, 0, 0, 0, 2, 1, 0]]\<rparr>) \<and>
   get_Xs ((plain_model tank ramp_inflow 0)
            \<lparr>time := 1, Xs := [0, 0],
             heap := [[0, 0, 0, 0, 0, 0, 0, 0, 0, 0, 0, 2, 1, 0]]\<rparr>) =
     [[0, 0, 0, 0, 0, 0, 0, 0, 0, 0, 0, 2, 1, 0], [0, 0, 0, 0, 0, 0, 0, 0, 0, 0, 0, 2, 1, 0]] \<and>
   [0, 0, 0, 0, 0, 0, 0, 0, 0, 0, 0, 2, 1, 0] \<noteq> tank"
  by (simp add: init_plain get_Xs_def) (simp add: run_defs tank_def ramp_inflow_def)

text \<open>
  Claim C5, as the code has it. Let every flow rate and the heat input be zero at all
  times. Then any number of steps that return leave \<open>V\<close> and \<open>Vg\<close> as they were, and from a
  state of 14 components with positive volumes every sequence of steps returns. The
  temperature derivative of \<^verbatim>\<open>DEs\<close> is \<open>- 0.25 * (max 0 T - Tamb)\<close>: the stored temperature is
  clamped like every other component. From a stored \<open>T \<ge> 0\<close> a step multiplies the
  distance of \<open>T\<close> to the ambient temperature (read at the new time) by \<open>1 - dt / 4\<close>.
\<close>

theorem zero_flow_conservation:
  assumes "\<forall>t. zero_flow (inputs m t)" "X_ref m < length (heap m)"
  shows "(\<forall>m'. steps dts m = Inr m' \<longrightarrow> X m' ! 11 = X m ! 11 \<and> X m' ! 12 = X m ! 12) \<and>
         (length (X m) = 14 \<and> X m ! 11 > 0 \<and> X m ! 12 > 0 \<and>
          linalg_inv rate_matrix = Inr (rate_matrix_inv m) \<longrightarrow> (\<exists>m'. steps dts m = Inr m')) \<and>
         (\<forall>t dX m'. DEs t m = Inr (dX, m') \<longrightarrow>
            dX ! 13 = - 0.25 * (max 0 (X m ! 13) - inputs m t ! 13)) \<and>
         (\<forall>dt m'. step dt m = Inr m' \<and> 0 \<le> X m ! 13 \<longrightarrow>
            X m' ! 13 - inputs m (time m + dt) ! 13 =
              (1 - dt / 4) * (X m ! 13 - inputs m (time m + dt) ! 13))"
proof -
  have a: "\<forall>m'. steps dts m = Inr m' \<longrightarrow> X m' ! 11 = X m ! 11 \<and> X m' ! 12 = X m ! 12"
    using zero_flow_steps [OF assms] by blast
  have b: "length (X m) = 14 \<and> X m ! 11 > 0 \<and> X m ! 12 > 0 \<and>
          linalg_inv rate_matrix = Inr (rate_matrix_inv m) \<longrightarrow> (\<exists>m'. steps dts m = Inr m')"
    using zero_flow_steps_return [OF assms] by blast
  have c: "\<forall>t dX m'. DEs t m = Inr (dX, m') \<longrightarrow>
            dX ! 13 = - 0.25 * (max 0 (X m ! 13) - inputs m t ! 13)"
    using zero_flow_temperature assms(1) by blast
  have d: "X m' ! 13 - inputs m (time m + dt) ! 13 =
              (1 - dt / 4) * (X m ! 13 - inputs m (time m + dt) ! 13)"
    if "step dt m = Inr m'" "0 \<le> X m ! 13" for dt m'
  proof -
    from step_nth [OF assms(2) that(1)] obtain dX where
      e: "DEs (time m + dt) m = Inr (dX, m)"
      and x: "\<forall>i<14. X m' ! i = X m ! i + dX ! i * dt"
      by blast
    from c e have "dX ! 13 = - 0.25 * (max 0 (X m ! 13) - inputs m (time m + dt) ! 13)"
      by blast
    with that(2) have "dX ! 13 = - 0.25 * (X m ! 13 - inputs m (time m + dt) ! 13)"
      by (simp add: max_def)
    moreover from x have "X m' ! 13 = X m ! 13 + dX ! 13 * dt" by simp
    ultimately have "X m' ! 13 =
        X m ! 13 + (- 0.25 * (X m ! 13 - inputs m (time m + dt) ! 13)) * dt"
      by simp
    then show ?thesis by (simp add: algebra_simps)
  qed
  from a b c d show ?thesis by blast
qed

theorem zero_flow_conservation_witness:
  "(\<forall>t. zero_flow (inputs (plain_model warm_tank no_flow 0) t)) \<and>
   X_ref (plain_model warm_tank no_flow 0) < length (heap (plain_model warm_tank no_flow 0)) \<and>
   steps [2, 2] (plain_model warm_tank no_flow 0) =
     Inr ((plain_model warm_tank no_flow 0)
            \<lparr>time := 4, Xs := [0, 0, 0],
             heap := [[0, 0, 0, 0, 0, 0, 0, 0, 0, 0, 0, 1, 1, 2]]\<rparr>) \<and>
   DEs 2 (plain_model warm_tank no_flow 0) =
     Inr ([0, 0, 0, 0, 0, 0, 0, 0, 0, 0, 0, 0, 0, - 2], plain_model warm_tank no_flow 0)"
  using zero_flow_conservation [of "plain_model warm_tank no_flow 0" "[2, 2]"]
  by (simp add: run_defs warm_tank_def no_flow_def zero_flow_def)

text \<open>
  Claim C5 as stated, with the derivative \<open>- 0.25 * (T - Tamb)\<close>, fails for a stored
  temperature below zero: at \<open>T = - 10\<close> and ambient temperature 0 the derivative is 0, not
  \<open>2.5\<close>, and a step leaves the temperature at \<open>- 10\<close>.
\<close>

theorem zero_flow_counterexample:
  "(\<forall>t. zero_flow (no_flow t)) \<and>
   X (plain_model cold_tank no_flow 0) ! 13 = - 10 \<and>
   no_flow 0 ! 13 = 0 \<and>
   DEs 0 (plain_model cold_tank no_flow 0) =
     Inr ([0, 0, 0, 0, 0, 0, 0, 0, 0, 0, 0, 0, 0, 0], plain_model cold_tank no_flow 0) \<and>
   - 0.25 * (X (plain_model cold_tank no_flow 0) ! 13 - no_flow 0 ! 13) = 2.5 \<and>
   step 1 (plain_model cold_tank no_flow 0) =
     Inr ((plain_model cold_tank no_flow 0)\<lparr>time := 1, Xs := [0, 0]\<rparr>)"
  by (simp add: run_defs cold_tank_def no_flow_def zero_flow_def)

text \<open>
  Claim C7. \<^verbatim>\<open>DEs\<close> returns the object as it got it (state vector, time, history and all
  other attributes); its result is the same for the stored state and for the stored state
  clamped at 0; and \<^verbatim>\<open>step\<close> writes \<open>X + dX * dt\<close> back without clamping, so that a negative
  component stays in the stored state, also through later calls of \<^verbatim>\<open>DEs\<close>.
\<close>

theorem DEs_clamps_and_keeps_state:
  assumes "X_ref m < length (heap m)"
  shows "(\<forall>dX m'. DEs t m = Inr (dX, m') \<longrightarrow> m' = m) \<and>
         map_sum id fst
           (DEs t (m\<lparr>heap := list_update (heap m) (X_ref m) (map (max 0) (X m))\<rparr>)) =
         map_sum id fst (DEs t m) \<and>
         (\<forall>dt m1. step dt m = Inr m1 \<longrightarrow>
            (\<exists>dX. DEs (time m + dt) m = Inr (dX, m) \<and>
                  (\<forall>i<14. X m1 ! i = X m ! i + dX ! i * dt)) \<and>
            (\<forall>s dX1 m2. DEs s m1 = Inr (dX1, m2) \<longrightarrow> X m2 = X m1))"
proof -
  have a: "\<forall>dX m'. DEs t m = Inr (dX, m') \<longrightarrow> m' = m"
    using DEs_Inr(1) by blast
  let ?mc = "m\<lparr>heap := list_update (heap m) (X_ref m) (map (max 0) (X m))\<rparr>"
  have "X ?mc = map (max 0) (X m)" using assms by (simp add: X_def)
  then have "map (max 0) (X ?mc) = map (max 0) (X m)" by simp
  then have b: "map_sum id fst (DEs t ?mc) = map_sum id fst (DEs t m)"
    by (rule DEs_reads_clamped) simp_all
  have c: "(\<exists>dX. DEs (time m + dt) m = Inr (dX, m) \<and>
                  (\<forall>i<14. X m1 ! i = X m ! i + dX ! i * dt)) \<and>
            (\<forall>s dX1 m2. DEs s m1 = Inr (dX1, m2) \<longrightarrow> X m2 = X m1)"
    if "step dt m = Inr m1" for dt m1
    using step_nth [OF assms that] DEs_Inr(1) by blast
  from a b c show ?thesis by blast
qed

theorem DEs_clamps_and_keeps_state_witness:
  "X_ref (plain_model brine_tank drain 0) < length (heap (plain_model brine_tank drain 0)) \<and>
   step 1 (plain_model brine_tank drain 0) =
     Inr ((plain_model brine_tank drain 0)
            \<lparr>time := 1, Xs := [0, 0],
             heap := [[0, 0, 0, 0, 0, 0, 0, - 1, 0, 0, 0, 1, 1, 0]]\<rparr>) \<and>
   DEs 2 ((plain_model brine_tank drain 0)
            \<lparr>time := 1, Xs := [0, 0],
             heap := [[0, 0, 0, 0, 0, 0, 0, - 1, 0, 0, 0, 1, 1, 0]]\<rparr>) =
     Inr ([0, 0, 0, 0, 0, 0, 0, 0, 0, 0, 0, 0, 0, 0],
          (plain_model brine_tank drain 0)
            \<lparr>time := 1, Xs := [0, 0],
             heap := [[0, 0, 0, 0, 0, 0, 0, - 1, 0, 0, 0, 1, 1, 0]]\<rparr>) \<and>
   DEs 2 ((plain_model brine_tank drain 0)
            \<lparr>time := 1, Xs := [0, 0],
             heap := [[0, 0, 0, 0, 0, 0, 0, 0, 0, 0, 0, 1, 1, 0]]\<rparr>) =
     Inr ([0, 0, 0, 0, 0, 0, 0, 0, 0, 0, 0, 0, 0, 0],
          (plain_model brine_tank drain 0)
            \<lparr>time := 1, Xs := [0, 0],
             heap := [[0, 0, 0, 0, 0, 0, 0, 0, 0, 0, 0, 1, 1, 0]]\<rparr>)"
  using DEs_clamps_and_keeps_state [of "plain_model brine_tank drain 0" 2]
  by (simp add: run_defs brine_tank_def drain_def)

end
